theory Spec2Isabelle
  imports Main
begin

section \<open>JavaScript values\<close>

text \<open>
  The values that travel through the coordinator: keys, saved values, the results a batch
  function hands back, and the errors a future is rejected with. Numbers are restricted to
  integers; \<open>JObject n\<close> is a plain object without a \<open>then\<close> property, identified by \<open>n\<close>.
  \<open>JError\<close> and \<open>JTypeError\<close> are the values for which \<open>instanceof Error\<close> holds.
\<close>

datatype jsval =
    JUndefined
  | JNull
  | JBool bool
  | JNum int
  | JStr string
  | JError string
  | JTypeError string
  | JArray "jsval list"
  | JObject nat

datatype jstype = TUndefined | TObject | TBoolean | TNumber | TString | TFunction

fun typeof_val :: "jsval \<Rightarrow> jstype" where
  "typeof_val JUndefined = TUndefined"
| "typeof_val JNull = TObject"
| "typeof_val (JBool b) = TBoolean"
| "typeof_val (JNum n) = TNumber"
| "typeof_val (JStr s) = TString"
| "typeof_val (JError m) = TObject"
| "typeof_val (JTypeError m) = TObject"
| "typeof_val (JArray xs) = TObject"
| "typeof_val (JObject n) = TObject"

fun truthy_val :: "jsval \<Rightarrow> bool" where
  "truthy_val JUndefined = False"
| "truthy_val JNull = False"
| "truthy_val (JBool b) = b"
| "truthy_val (JNum n) = (n \<noteq> 0)"
| "truthy_val (JStr s) = (s \<noteq> [])"
| "truthy_val v = True"

fun instanceofError :: "jsval \<Rightarrow> bool" where
  "instanceofError (JError m) = True"
| "instanceofError (JTypeError m) = True"
| "instanceofError v = False"

fun isArray :: "jsval \<Rightarrow> bool" where
  "isArray (JArray xs) = True"
| "isArray v = False"

subsection \<open>String conversion\<close>

text \<open>
  Template literals (\<open>`${x}`\<close>) and property keys (\<open>obj[x]\<close>) both convert their operand
  to a string. Decimal digits of a natural number, most significant first:
\<close>

fun show_nat :: "nat \<Rightarrow> string" where
  "show_nat n =
     (if n < 10 then [''0123456789'' ! n]
      else show_nat (n div 10) @ [''0123456789'' ! (n mod 10)])"

declare show_nat.simps [simp del]

definition show_int :: "int \<Rightarrow> string" where
  "show_int i = (if i < 0 then CHR ''-'' # show_nat (nat (- i)) else show_nat (nat i))"

fun join_comma :: "string list \<Rightarrow> string" where
  "join_comma [] = []"
| "join_comma [s] = s"
| "join_comma (s # t # ts) = s @ '','' @ join_comma (t # ts)"

fun toString :: "jsval \<Rightarrow> string" where
  "toString JUndefined = ''undefined''"
| "toString JNull = ''null''"
| "toString (JBool b) = (if b then ''true'' else ''false'')"
| "toString (JNum n) = show_int n"
| "toString (JStr s) = s"
| "toString (JError m) = (if m = [] then ''Error'' else ''Error: '' @ m)"
| "toString (JTypeError m) = (if m = [] then ''TypeError'' else ''TypeError: '' @ m)"
| "toString (JArray xs) =
     join_comma (map (\<lambda>x. if x = JUndefined \<or> x = JNull then [] else toString x) xs)"
| "toString (JObject n) = ''[object Object]''"

section \<open>Data model\<close>

text \<open>
  What a call of a batch function can do: throw, or return a value. A returned value is
  either \<open>Plain v\<close>, a value that is falsy or has no \<open>then\<close> property, or a promise, which
  is fulfilled with a value, rejected with a reason, or never settles.
\<close>

datatype settlement = Fulfilled jsval | Rejected jsval | NeverSettles

datatype returned = Plain jsval | Promise settlement

datatype outcome = Throws jsval | Returns returned

type_synonym batchFn = "jsval list \<Rightarrow> outcome"

text \<open>
  The options object, read in three places: \<open>cache !== false\<close>, the truthiness of
  \<open>cacheKeyFn\<close> and the truthiness of \<open>maxBatchSize\<close>. A property that is absent reads as
  \<open>undefined\<close>: \<open>JUndefined\<close> for \<open>cache\<close>, \<open>None\<close> for the other two.
\<close>

record options =
  cache :: jsval
  cacheKeyFn :: "(jsval \<Rightarrow> jsval) option"
  maxBatchSize :: "int option"

definition empty_options :: options where
  "empty_options = \<lparr>cache = JUndefined, cacheKeyFn = None, maxBatchSize = None\<rparr>"

text \<open>A constructor argument: a function, an options object, or any other value.\<close>

datatype ctor_arg = ArgFunction batchFn | ArgOptions options | ArgValue jsval

fun typeof :: "ctor_arg \<Rightarrow> jstype" where
  "typeof (ArgFunction f) = TFunction"
| "typeof (ArgOptions opts) = TObject"
| "typeof (ArgValue v) = typeof_val v"

definition isFunction :: "ctor_arg \<Rightarrow> bool" where
  "isFunction x = (typeof x = TFunction)"

definition isUndefined :: "ctor_arg \<Rightarrow> bool" where
  "isUndefined x = (typeof x = TUndefined)"

definition isDefined :: "ctor_arg \<Rightarrow> bool" where
  "isDefined x = (typeof x \<noteq> TUndefined)"

definition isObject :: "ctor_arg \<Rightarrow> bool" where
  "isObject x = (typeof x = TObject)"

fun truthy :: "ctor_arg \<Rightarrow> bool" where
  "truthy (ArgFunction f) = True"
| "truthy (ArgOptions opts) = True"
| "truthy (ArgValue v) = truthy_val v"

text \<open>
  \<open>`${x}`\<close> for a constructor argument. Both constructor messages are built only for
  arguments that are not functions, so the rendering of a function (its source text) is
  never part of a message.
\<close>

fun arg_toString :: "ctor_arg \<Rightarrow> string" where
  "arg_toString (ArgFunction f) = ''function''"
| "arg_toString (ArgOptions opts) = ''[object Object]''"
| "arg_toString (ArgValue v) = toString v"

datatype kind = LoadT | SaveT

text \<open>
  A queue entry \<open>{ resolve, reject, key, value, type }\<close>. The two callbacks belong to the
  promise created for the entry; \<open>promise\<close> is that promise's address in the store. A load
  entry has no \<open>value\<close> property, which reads as \<open>undefined\<close>.
\<close>

record pending_item =
  promise :: nat
  key :: jsval
  item_value :: jsval
  type :: kind

datatype promise_state = Pending | Resolved jsval | RejectedWith jsval

text \<open>The immutable part of a coordinator: the two batch functions and the options.\<close>

record batcher =
  batchLoadFn :: batchFn
  batchSaveFn :: "batchFn option"
  opts :: options

text \<open>A logged call of a batch function: which one, and the sequence it was given.\<close>

type_synonym call = "kind \<times> jsval list"

text \<open>
  The mutable part: the three fields of the class, the store of promises the coordinator has
  created (a promise's address is its index), the number of times \<open>_flushQueue\<close> has been
  handed to \<open>process.nextTick\<close>, and the log of batch-function calls.
\<close>

record state =
  loadCache :: "string \<rightharpoonup> nat"
  flushing :: bool
  queue :: "pending_item list"
  promises :: "promise_state list"
  scheduled :: nat
  calls :: "call list"

definition initial_state :: state where
  "initial_state =
     \<lparr>loadCache = Map.empty, flushing = False, queue = [], promises = [],
      scheduled = 0, calls = []\<rparr>"

section \<open>Construction\<close>

definition load_fn_message :: "ctor_arg \<Rightarrow> string" where
  "load_fn_message x =
     ''DataBatcher must be constructed with a batch load function which accepts '' @
     ''Array<key> and returns Promise<Array<value>>, but got: '' @ arg_toString x @ ''.''"

definition save_fn_message :: "ctor_arg \<Rightarrow> string" where
  "save_fn_message x =
     ''DataBatcher must be constructed with a batch save function which accepts '' @
     ''Array<[key,value]> and returns Promise<Array<void>>, but got: '' @ arg_toString x @ ''.''"

definition prepareBatchLoadFn :: "ctor_arg \<Rightarrow> jsval + batchFn" where
  "prepareBatchLoadFn loadArg =
     (case loadArg of
        ArgFunction f \<Rightarrow> Inr f
      | _ \<Rightarrow> Inl (JTypeError (load_fn_message loadArg)))"

text \<open>
  The result \<open>None\<close> stands for both \<open>null\<close> (the second parameter was the options) and
  \<open>undefined\<close> (no second parameter): neither can be called.
\<close>

definition prepareBatchSaveFn :: "ctor_arg \<Rightarrow> ctor_arg \<Rightarrow> jsval + batchFn option" where
  "prepareBatchSaveFn saveArg optionsArg =
     (if isUndefined optionsArg \<and> isObject saveArg then Inr None
      else if isDefined saveArg \<and> \<not> isFunction saveArg
        then Inl (JTypeError (save_fn_message saveArg))
      else (case saveArg of ArgFunction f \<Rightarrow> Inr (Some f) | _ \<Rightarrow> Inr None))"

text \<open>
  Reading \<open>cache\<close>, \<open>cacheKeyFn\<close> and \<open>maxBatchSize\<close> off a value that is not an options
  object gives \<open>undefined\<close> three times.
\<close>

fun as_options :: "ctor_arg \<Rightarrow> options" where
  "as_options (ArgOptions o') = o'"
| "as_options x = empty_options"

definition prepareOptions :: "ctor_arg \<Rightarrow> ctor_arg \<Rightarrow> options" where
  "prepareOptions saveArg optionsArg =
     (let options' = (if isUndefined optionsArg \<and> isObject saveArg then saveArg else optionsArg)
      in if truthy options' then as_options options' else empty_options)"

definition DataBatcher :: "ctor_arg \<Rightarrow> ctor_arg \<Rightarrow> ctor_arg \<Rightarrow> jsval + (batcher \<times> state)" where
  "DataBatcher loadArg saveArg optionsArg =
     (case prepareBatchLoadFn loadArg of
        Inl e \<Rightarrow> Inl e
      | Inr lf \<Rightarrow>
          (case prepareBatchSaveFn saveArg optionsArg of
             Inl e \<Rightarrow> Inl e
           | Inr sf \<Rightarrow>
               Inr (\<lparr>batchLoadFn = lf, batchSaveFn = sf,
                     opts = prepareOptions saveArg optionsArg\<rparr>, initial_state)))"

section \<open>The load cache\<close>

text \<open>
  The cache is created as the object literal \<open>{}\<close>. Its own properties are the entries
  \<open>loadCache\<close> holds; a read \<open>this._loadCache[cacheKey]\<close> that finds no own property goes on
  to \<open>Object.prototype\<close>, whose members are all truthy.
\<close>

definition object_prototype_keys :: "string list" where
  "object_prototype_keys =
     [''constructor'', ''__defineGetter__'', ''__defineSetter__'', ''hasOwnProperty'',
      ''__lookupGetter__'', ''__lookupSetter__'', ''isPrototypeOf'', ''propertyIsEnumerable'',
      ''toString'', ''valueOf'', ''__proto__'', ''toLocaleString'']"

text \<open>What \<open>load\<close> returns: a promise of the store, or a member of \<open>Object.prototype\<close>.\<close>

datatype load_result = Future nat | Inherited string

definition cache_get :: "(string \<rightharpoonup> nat) \<Rightarrow> string \<Rightarrow> load_result option" where
  "cache_get c ck =
     (case c ck of
        Some p \<Rightarrow> Some (Future p)
      | None \<Rightarrow> if ck \<in> set object_prototype_keys then Some (Inherited ck) else None)"

definition cacheKey :: "options \<Rightarrow> jsval \<Rightarrow> string" where
  "cacheKey os k = toString (case cacheKeyFn os of Some f \<Rightarrow> f k | None \<Rightarrow> k)"

definition shouldCache :: "options \<Rightarrow> bool" where
  "shouldCache os = (cache os \<noteq> JBool False)"

section \<open>load and save\<close>

definition enqueue :: "pending_item \<Rightarrow> state \<Rightarrow> state" where
  "enqueue it s =
     (let q = queue s @ [it]
      in s\<lparr>queue := q,
           scheduled := (if length q = 1 \<and> \<not> flushing s then scheduled s + 1 else scheduled s)\<rparr>)"

definition loadLater :: "jsval \<Rightarrow> state \<Rightarrow> nat \<times> state" where
  "loadLater k s =
     (let p = length (promises s);
          s1 = s\<lparr>promises := promises s @ [Pending]\<rparr>
      in (p, enqueue \<lparr>promise = p, key = k, item_value = JUndefined, type = LoadT\<rparr> s1))"

definition load :: "batcher \<Rightarrow> jsval \<Rightarrow> state \<Rightarrow> load_result \<times> state" where
  "load b k s =
     (let ck = cacheKey (opts b) k
      in if shouldCache (opts b) then
           (case cache_get (loadCache s) ck of
              Some r \<Rightarrow> (r, s)
            | None \<Rightarrow>
                (let (p, s') = loadLater k s
                 in (Future p, s'\<lparr>loadCache := (loadCache s')(ck \<mapsto> p)\<rparr>)))
         else (let (p, s') = loadLater k s in (Future p, s')))"

definition saveLater :: "jsval \<Rightarrow> jsval \<Rightarrow> state \<Rightarrow> nat \<times> state" where
  "saveLater k v s =
     (let p = length (promises s);
          s1 = s\<lparr>promises := promises s @ [Pending]\<rparr>
      in (p, enqueue \<lparr>promise = p, key = k, item_value = v, type = SaveT\<rparr> s1))"

definition save :: "batcher \<Rightarrow> jsval \<Rightarrow> jsval \<Rightarrow> state \<Rightarrow> nat \<times> state" where
  "save b k v s =
     (let ck = cacheKey (opts b) k;
          s1 = s\<lparr>loadCache := (loadCache s)(ck := None)\<rparr>
      in saveLater k v s1)"

text \<open>
  \<open>loadMany\<close> and \<open>saveMany\<close> map \<open>load\<close> and \<open>save\<close> over their argument, left to right;
  the model returns the sequence that the source passes to \<open>Promise.all\<close>.
\<close>

fun loadMany :: "batcher \<Rightarrow> jsval list \<Rightarrow> state \<Rightarrow> load_result list \<times> state" where
  "loadMany b [] s = ([], s)"
| "loadMany b (k # ks) s =
     (let (r, s1) = load b k s; (rs, s2) = loadMany b ks s1 in (r # rs, s2))"


section \<open>Dispatching a batch\<close>

text \<open>
  An asynchronous function of the coordinator ends in one of three ways: it completes, an
  exception escapes it (its promise is rejected), or it hangs on a promise that never settles.
  Each carries the state the coordinator is left in.
\<close>

datatype 'a async = Completes 'a | Raises jsval 'a | Hangs 'a

fun state_of :: "'a async \<Rightarrow> 'a" where
  "state_of (Completes s) = s"
| "state_of (Raises e s) = s"
| "state_of (Hangs s) = s"

text \<open>A promise settles once: \<open>resolve\<close> and \<open>reject\<close> on a settled promise do nothing.\<close>

definition resolve :: "nat \<Rightarrow> jsval \<Rightarrow> promise_state list \<Rightarrow> promise_state list" where
  "resolve p v ps = (if p < length ps \<and> ps ! p = Pending then ps[p := Resolved v] else ps)"

definition reject :: "nat \<Rightarrow> jsval \<Rightarrow> promise_state list \<Rightarrow> promise_state list" where
  "reject p e ps = (if p < length ps \<and> ps ! p = Pending then ps[p := RejectedWith e] else ps)"

text \<open>\<open>batch.forEach(({ reject }) => reject(result))\<close>\<close>

fun reject_all :: "pending_item list \<Rightarrow> jsval \<Rightarrow> promise_state list \<Rightarrow> promise_state list" where
  "reject_all [] e ps = ps"
| "reject_all (it # its) e ps = reject_all its e (reject (promise it) e ps)"

text \<open>
  \<open>batch.forEach(({ resolve, reject }, index) => ...)\<close>: the entry at \<open>index\<close> gets
  \<open>results[index]\<close>, which is \<open>undefined\<close> beyond the end of \<open>results\<close>.
\<close>

fun distribute :: "pending_item list \<Rightarrow> jsval list \<Rightarrow> promise_state list \<Rightarrow> promise_state list" where
  "distribute [] rs ps = ps"
| "distribute (it # its) [] ps = distribute its [] (resolve (promise it) JUndefined ps)"
| "distribute (it # its) (r # rs) ps =
     distribute its rs
       (if instanceofError r then reject (promise it) r ps else resolve (promise it) r ps)"

text \<open>
  What the two checking functions give back: an \<open>Error\<close> value, the checked array, or no
  value at all when awaiting the batch function's promise throws or never ends.
\<close>

datatype checked = Invalid jsval | Valid "jsval list" | AwaitThrows jsval | AwaitHangs

definition checkLoadResult :: "returned \<Rightarrow> nat \<Rightarrow> checked" where
  "checkLoadResult loadResultPromise expectedLength =
     (case loadResultPromise of
        Plain v \<Rightarrow>
          Invalid (JError (''batchLoadFn must return Promise<Array<value>> but got: '' @ toString v))
      | Promise NeverSettles \<Rightarrow> AwaitHangs
      | Promise (Rejected e) \<Rightarrow> AwaitThrows e
      | Promise (Fulfilled loadResult) \<Rightarrow>
          (case loadResult of
             JArray xs \<Rightarrow>
               if length xs \<noteq> expectedLength then
                 Invalid (JError (''batchLoadFn must return Promise<Array<value>> of length '' @
                   show_nat expectedLength @ '' but got length: '' @ show_nat (length xs)))
               else Valid xs
           | _ \<Rightarrow>
               Invalid (JError (''batchLoadFn must return Promise<Array<value>> but got: Promise<'' @
                 toString loadResult @ ''>''))))"

definition checkSaveResult :: "returned \<Rightarrow> nat \<Rightarrow> checked" where
  "checkSaveResult saveResultPromise expectedLength =
     (case saveResultPromise of
        Plain v \<Rightarrow>
          Invalid (JError (''batchSaveFn must return Promise<Array<any>> but got: '' @ toString v))
      | Promise NeverSettles \<Rightarrow> AwaitHangs
      | Promise (Rejected e) \<Rightarrow> AwaitThrows e
      | Promise (Fulfilled saveResult) \<Rightarrow>
          (case saveResult of
             JArray xs \<Rightarrow>
               if length xs \<noteq> expectedLength then
                 Invalid (JError (''batchSaveFn must return Promise<Array<any>> of length '' @
                   show_nat expectedLength @ '' but got length: '' @ show_nat (length xs)))
               else Valid xs
           | _ \<Rightarrow>
               Invalid (JError (''batchSaveFn must return Promise<Array<any>> but got: Promise<'' @
                 toString saveResult @ ''>''))))"

text \<open>What \<open>batchLoad\<close> and \<open>batchSave\<close> do once the check has come back.\<close>

definition settle_batch :: "pending_item list \<Rightarrow> checked \<Rightarrow> state \<Rightarrow> state async" where
  "settle_batch batch c s =
     (case c of
        Invalid e \<Rightarrow> Completes (s\<lparr>promises := reject_all batch e (promises s)\<rparr>)
      | Valid rs \<Rightarrow> Completes (s\<lparr>promises := distribute batch rs (promises s)\<rparr>)
      | AwaitThrows e \<Rightarrow> Raises e s
      | AwaitHangs \<Rightarrow> Hangs s)"

definition load_args :: "pending_item list \<Rightarrow> jsval list" where
  "load_args batch = map key batch"

definition save_args :: "pending_item list \<Rightarrow> jsval list" where
  "save_args batch = map (\<lambda>it. JArray [key it, item_value it]) batch"

definition batchLoad :: "batcher \<Rightarrow> pending_item list \<Rightarrow> state \<Rightarrow> state async" where
  "batchLoad b batch s =
     (let s1 = s\<lparr>calls := calls s @ [(LoadT, load_args batch)]\<rparr>
      in case batchLoadFn b (load_args batch) of
           Throws e \<Rightarrow> Raises e s1
         | Returns r \<Rightarrow> settle_batch batch (checkLoadResult r (length batch)) s1)"

text \<open>
  Where the coordinator has no save function, the call \<open>this._batchSaveFn(...)\<close> is a call
  of \<open>null\<close> or \<open>undefined\<close>, which throws a \<open>TypeError\<close>.
\<close>

definition batchSave :: "batcher \<Rightarrow> pending_item list \<Rightarrow> state \<Rightarrow> state async" where
  "batchSave b batch s =
     (case batchSaveFn b of
        None \<Rightarrow> Raises (JTypeError ''this._batchSaveFn is not a function'') s
      | Some f \<Rightarrow>
          (let s1 = s\<lparr>calls := calls s @ [(SaveT, save_args batch)]\<rparr>
           in case f (save_args batch) of
                Throws e \<Rightarrow> Raises e s1
              | Returns r \<Rightarrow> settle_batch batch (checkSaveResult r (length batch)) s1))"

section \<open>The flush loop\<close>

text \<open>The local \<open>maxBatchSize\<close> of \<open>_flushQueue\<close>; an option of \<open>0\<close> is falsy.\<close>

definition effectiveMax :: "options \<Rightarrow> nat \<Rightarrow> int" where
  "effectiveMax os queueLength =
     (case maxBatchSize os of
        Some m \<Rightarrow> if m \<noteq> 0 then min m (int queueLength) else int queueLength
      | None \<Rightarrow> int queueLength)"

text \<open>
  The \<open>while\<close> loop that grows \<open>batchSize\<close>. Reading \<open>this._queue[batchSize].type\<close> beyond
  the end of the queue would throw a \<open>TypeError\<close>.
\<close>

function scan :: "pending_item list \<Rightarrow> kind \<Rightarrow> int \<Rightarrow> nat \<Rightarrow> jsval + nat" where
  "scan q batchType mx batchSize =
     (if int batchSize < mx then
        (if batchSize < length q then
           (if type (q ! batchSize) = batchType then scan q batchType mx (batchSize + 1)
            else Inr batchSize)
         else Inl (JTypeError ''Cannot read properties of undefined (reading type)''))
      else Inr batchSize)"
  by pat_completeness auto
termination
  by (relation "measure (\<lambda>(q, batchType, mx, batchSize). length q - batchSize)") auto

declare scan.simps [simp del]

text \<open>
  Lines 110 to 125 of \<open>_flushQueue\<close>, for a queue that is not empty: the type of the batch,
  the batch that \<open>splice(0, batchSize)\<close> returns and the queue it leaves.
\<close>

definition nextBatch ::
  "options \<Rightarrow> pending_item list \<Rightarrow> jsval + (kind \<times> pending_item list \<times> pending_item list)" where
  "nextBatch os q =
     (case q of
        [] \<Rightarrow> Inl (JTypeError ''Cannot read properties of undefined (reading type)'')
      | item0 # _ \<Rightarrow>
          (let queueLength = length q;
               mx = effectiveMax os queueLength;
               batchType = type item0
           in case scan q batchType mx 1 of
                Inl e \<Rightarrow> Inl e
              | Inr batchSize \<Rightarrow> Inr (batchType, take batchSize q, drop batchSize q)))"

text \<open>One pass through the body of \<open>_flushQueue\<close> with a queue that is not empty.\<close>

definition dispatch :: "batcher \<Rightarrow> state \<Rightarrow> state async" where
  "dispatch b s =
     (let s1 = s\<lparr>flushing := True\<rparr>
      in case nextBatch (opts b) (queue s1) of
           Inl e \<Rightarrow> Raises e s1
         | Inr (batchType, batch, rest) \<Rightarrow>
             (let s2 = s1\<lparr>queue := rest\<rparr>
              in if batchType = LoadT then batchLoad b batch s2 else batchSave b batch s2))"

text \<open>
  \<open>flushIteration\<close> is one call of \<open>_flushQueue\<close> up to its recursive call. The two
  \<open>await\<close>s of the body are the only places where other code can run; what such code can
  do to the coordinator is call \<open>load\<close> and \<open>save\<close>, which append to the queue and change the
  cache, neither of which the rest of the pass reads. The model therefore runs a pass as one
  step and lets other calls happen between passes.
\<close>

definition flushIteration :: "batcher \<Rightarrow> state \<Rightarrow> state async" where
  "flushIteration b s =
     (if length (queue s) = 0 then Completes (s\<lparr>flushing := False\<rparr>) else dispatch b s)"

lemma scan_bounds:
  "batchSize \<le> length q \<Longrightarrow> mx \<le> int (length q) \<Longrightarrow>
   \<exists>n. scan q batchType mx batchSize = Inr n \<and> batchSize \<le> n \<and> n \<le> length q"
proof (induction q batchType mx batchSize rule: scan.induct)
  case (1 q batchType mx batchSize)
  show ?case
  proof (cases "int batchSize < mx \<and> type (q ! batchSize) = batchType")
    case True
    with "1.prems" have lt: "batchSize < length q" by linarith
    with True "1.IH" "1.prems" obtain n where
      "scan q batchType mx (batchSize + 1) = Inr n" "batchSize + 1 \<le> n" "n \<le> length q"
      by fastforce
    with True lt show ?thesis
      by (subst scan.simps) auto
  next
    case False
    with "1.prems" show ?thesis
      by (subst scan.simps) auto
  qed
qed

lemma effectiveMax_le: "effectiveMax os n \<le> int n"
  by (simp add: effectiveMax_def split: option.splits)

lemma nextBatch_total:
  assumes "q \<noteq> []"
  shows "\<exists>n. nextBatch os q = Inr (type (hd q), take n q, drop n q) \<and> 1 \<le> n \<and> n \<le> length q"
proof -
  from assms obtain x xs where q: "q = x # xs" by (cases q) auto
  have "1 \<le> length q" using q by simp
  from scan_bounds [OF this effectiveMax_le, of "type x" os]
  obtain n where "scan q (type x) (effectiveMax os (length q)) 1 = Inr n" "1 \<le> n" "n \<le> length q"
    by blast
  then show ?thesis
    using q by (auto simp: nextBatch_def Let_def)
qed

text \<open>
  The whole of \<open>_flushQueue\<close>, with no call of \<open>load\<close> or \<open>save\<close> arriving while it runs.
  A pass that completes is followed by the next one; an exception or a promise that never
  settles ends the loop where it stands.
\<close>

lemma dispatch_shrinks:
  assumes "queue s \<noteq> []"
  shows "length (queue (state_of (dispatch b s))) < length (queue s)"
proof -
  from nextBatch_total [OF assms, of "opts b"] obtain n where
    nb: "nextBatch (opts b) (queue s) = Inr (type (hd (queue s)), take n (queue s), drop n (queue s))"
    and n: "1 \<le> n" "n \<le> length (queue s)" by blast
  show ?thesis
    using nb n assms
    by (auto simp: dispatch_def Let_def batchLoad_def batchSave_def settle_batch_def
             split: outcome.splits checked.splits option.splits)
qed

function flushQueue :: "batcher \<Rightarrow> state \<Rightarrow> state async" where
  "flushQueue b s =
     (if length (queue s) = 0 then Completes (s\<lparr>flushing := False\<rparr>)
      else (case dispatch b s of
              Completes s' \<Rightarrow> flushQueue b s'
            | Raises e s' \<Rightarrow> Raises e s'
            | Hangs s' \<Rightarrow> Hangs s'))"
  by pat_completeness auto
termination
proof (relation "measure (\<lambda>(b, s). length (queue s))")
  show "wf (measure (\<lambda>(b, s). length (queue s)))" by simp
next
  fix b :: batcher and s s' :: state
  assume "length (queue s) \<noteq> 0" and d: "dispatch b s = Completes s'"
  then have "queue s \<noteq> []" by simp
  from dispatch_shrinks [OF this, of b] d
  show "((b, s'), (b, s)) \<in> measure (\<lambda>(b, s). length (queue s))" by simp
qed

declare flushQueue.simps [simp del]

section \<open>Runs of a coordinator\<close>

text \<open>
  What can happen to a coordinator, one after the other: a call of \<open>load\<close>, a call of
  \<open>save\<close>, or one pass of the flush loop.
\<close>

datatype op = OpLoad jsval | OpSave jsval jsval | OpFlush

fun apply_op :: "batcher \<Rightarrow> op \<Rightarrow> state \<Rightarrow> state" where
  "apply_op b (OpLoad k) s = snd (load b k s)"
| "apply_op b (OpSave k v) s = snd (save b k v s)"
| "apply_op b OpFlush s = state_of (flushIteration b s)"

fun exec :: "batcher \<Rightarrow> op list \<Rightarrow> state \<Rightarrow> state" where
  "exec b [] s = s"
| "exec b (x # xs) s = exec b xs (apply_op b x s)"

text \<open>The sequence a batch function is called with, for a batch of either type.\<close>

definition batch_args :: "kind \<Rightarrow> pending_item list \<Rightarrow> jsval list" where
  "batch_args t batch = (if t = LoadT then load_args batch else save_args batch)"

text \<open>
  The batch functions of the test suite: \<open>async keys => keys\<close> and
  \<open>async writes => writes.map(() => undefined)\<close>; and a loader whose promise is rejected.
\<close>

definition echo_loader :: batchFn where
  "echo_loader ks = Returns (Promise (Fulfilled (JArray ks)))"

definition void_saver :: batchFn where
  "void_saver ws = Returns (Promise (Fulfilled (JArray (map (\<lambda>w. JUndefined) ws))))"


text \<open>
  Two loaders that ignore their keys: \<open>async keys => [true]\<close>, and one whose array holds an
  error at the first position.
\<close>

definition short_loader :: batchFn where
  "short_loader ks = Returns (Promise (Fulfilled (JArray [JBool True])))"

definition partial_loader :: batchFn where
  "partial_loader ks = Returns (Promise (Fulfilled (JArray [JError ''TEST'', JNum 2])))"

definition example_batcher :: "batchFn \<Rightarrow> batchFn option \<Rightarrow> options \<Rightarrow> batcher" where
  "example_batcher lf sf os = \<lparr>batchLoadFn = lf, batchSaveFn = sf, opts = os\<rparr>"


definition load_save_batcher :: batcher where
  "load_save_batcher = example_batcher echo_loader (Some void_saver) empty_options"


text \<open>
  The states a coordinator can be in have three properties: the entries of the queue have
  promises of their own, these promises are pending, and the cache holds promises of the store.
\<close>

definition wf_state :: "state \<Rightarrow> bool" where
  "wf_state s \<longleftrightarrow>
     distinct (map promise (queue s))
     \<and> (\<forall>it \<in> set (queue s). promise it < length (promises s) \<and> promises s ! promise it = Pending)
     \<and> (\<forall>ck p. loadCache s ck = Some p \<longrightarrow> p < length (promises s))"

text \<open>What \<open>result instanceof Error ? reject(result) : resolve(result)\<close> leaves a pending promise in.\<close>

definition settled_with :: "jsval \<Rightarrow> promise_state" where
  "settled_with r = (if instanceofError r then RejectedWith r else Resolved r)"

text \<open>The batch function a batch of type \<open>t\<close> goes to, if the coordinator has one.\<close>

definition batch_fn :: "batcher \<Rightarrow> kind \<Rightarrow> batchFn option" where
  "batch_fn b t = (case t of LoadT \<Rightarrow> Some (batchLoadFn b) | SaveT \<Rightarrow> batchSaveFn b)"

text \<open>
  A returned value that breaks the contract of a batch function for a batch of \<open>n\<close> entries:
  it is no promise, or the promise is fulfilled with a value that is no array, or with an
  array whose length is not \<open>n\<close>.
\<close>

definition malformed :: "returned \<Rightarrow> nat \<Rightarrow> bool" where
  "malformed r n =
     (case r of
        Plain v \<Rightarrow> True
      | Promise (Fulfilled v) \<Rightarrow> (case v of JArray xs \<Rightarrow> length xs \<noteq> n | _ \<Rightarrow> True)
      | Promise _ \<Rightarrow> False)"

text \<open>
  A list cut into consecutive pieces of \<open>m\<close> elements, the last one possibly shorter: what
  the claim about \<open>maxBatchSize\<close> expects the calls of the batch function to receive.
\<close>

function chunks :: "nat \<Rightarrow> 'a list \<Rightarrow> 'a list list" where
  "chunks m xs = (if m = 0 \<or> xs = [] then [] else take m xs # chunks m (drop m xs))"
  by pat_completeness auto
termination
  by (relation "measure (\<lambda>(m, xs). length xs)") auto

declare chunks.simps [simp del]




section \<open>Properties of the batch selection\<close>

lemma scan_takeWhile:
  "batchSize \<le> length (takeWhile (\<lambda>x. type x = batchType) q) \<Longrightarrow> int batchSize \<le> mx \<Longrightarrow>
   mx \<le> int (length q) \<Longrightarrow>
   scan q batchType mx batchSize = Inr (min (nat mx) (length (takeWhile (\<lambda>x. type x = batchType) q)))"
proof (induction q batchType mx batchSize rule: scan.induct)
  case (1 q batchType mx batchSize)
  let ?P = "\<lambda>x. type x = batchType"
  let ?tw = "takeWhile ?P q"
  show ?case
  proof (cases "int batchSize < mx")
    case False
    with "1.prems" show ?thesis by (subst scan.simps) auto
  next
    case True
    with "1.prems" have lt: "batchSize < length q" by linarith
    show ?thesis
    proof (cases "type (q ! batchSize) = batchType")
      case same: True
      have "batchSize < length ?tw"
      proof (rule ccontr)
        assume "\<not> batchSize < length ?tw"
        with "1.prems" have eq: "length ?tw = batchSize" by simp
        with lt have "length ?tw < length q" by simp
        from nth_length_takeWhile [OF this] eq same show False by simp
      qed
      then have "batchSize + 1 \<le> length ?tw" by simp
      moreover from True have "int (batchSize + 1) \<le> mx" by simp
      ultimately have "scan q batchType mx (batchSize + 1) = Inr (min (nat mx) (length ?tw))"
        using "1.IH" True lt same "1.prems" by blast
      with True lt same show ?thesis by (subst scan.simps) simp
    next
      case diff: False
      have "length ?tw \<le> batchSize"
      proof (rule ccontr)
        assume "\<not> length ?tw \<le> batchSize"
        then have "batchSize < length ?tw" by simp
        then have "?tw ! batchSize \<in> set ?tw" by (rule nth_mem)
        then have "?P (?tw ! batchSize)" by (blast dest: set_takeWhileD)
        moreover have "?tw ! batchSize = q ! batchSize"
          using \<open>batchSize < length ?tw\<close> by (rule takeWhile_nth)
        ultimately show False using diff by simp
      qed
      with "1.prems" have "length ?tw = batchSize" by simp
      with True diff lt show ?thesis by (subst scan.simps) auto
    qed
  qed
qed

lemma take_min_takeWhile:
  "take (min c (length (takeWhile P q))) q = take c (takeWhile P q)"
proof -
  have "take c (takeWhile P q) = take c (take (length (takeWhile P q)) q)"
    using takeWhile_eq_take [of P q] by simp
  then show ?thesis by (simp add: min.commute)
qed


lemma settle_batch_frame:
  "queue (state_of (settle_batch batch c s)) = queue s"
  "calls (state_of (settle_batch batch c s)) = calls s"
  "loadCache (state_of (settle_batch batch c s)) = loadCache s"
  "flushing (state_of (settle_batch batch c s)) = flushing s"
  "scheduled (state_of (settle_batch batch c s)) = scheduled s"
  by (simp_all add: settle_batch_def split: checked.splits)

lemma batchLoad_frame:
  "queue (state_of (batchLoad b batch s)) = queue s"
  "calls (state_of (batchLoad b batch s)) = calls s @ [(LoadT, load_args batch)]"
  "loadCache (state_of (batchLoad b batch s)) = loadCache s"
  "flushing (state_of (batchLoad b batch s)) = flushing s"
  "scheduled (state_of (batchLoad b batch s)) = scheduled s"
  by (simp_all add: batchLoad_def Let_def settle_batch_frame split: outcome.splits)

lemma batchSave_frame:
  "queue (state_of (batchSave b batch s)) = queue s"
  "calls (state_of (batchSave b batch s)) =
     (case batchSaveFn b of None \<Rightarrow> calls s | Some f \<Rightarrow> calls s @ [(SaveT, save_args batch)])"
  "loadCache (state_of (batchSave b batch s)) = loadCache s"
  "flushing (state_of (batchSave b batch s)) = flushing s"
  "scheduled (state_of (batchSave b batch s)) = scheduled s"
  by (simp_all add: batchSave_def Let_def settle_batch_frame split: outcome.splits option.splits)

lemma calls_dispatch:
  assumes "nextBatch (opts b) (queue s) = Inr (t, batch, rest)"
  shows "queue (state_of (dispatch b s)) = rest"
    and "t = LoadT \<or> batchSaveFn b \<noteq> None \<Longrightarrow>
         calls (state_of (dispatch b s)) = calls s @ [(t, batch_args t batch)]"
    and "t = SaveT \<Longrightarrow> batchSaveFn b = None \<Longrightarrow> calls (state_of (dispatch b s)) = calls s"
    and "loadCache (state_of (dispatch b s)) = loadCache s"
  using assms
  by (cases t; auto simp: dispatch_def Let_def batchLoad_frame batchSave_frame batch_args_def)+

text \<open>
  The batch for any value of the option \<open>maxBatchSize\<close>: a value of \<open>0\<close> reads as unset, and
  under a negative value the scan does not start, which leaves a batch of one entry.
\<close>

lemma nextBatch_any_maxBatchSize:
  assumes q: "q = item0 # others"
  shows "nextBatch os q =
           Inr (type item0,
                take (max 1 (nat (effectiveMax os (length q)))) (takeWhile (\<lambda>x. type x = type item0) q),
                drop (length (take (max 1 (nat (effectiveMax os (length q))))
                        (takeWhile (\<lambda>x. type x = type item0) q))) q)"
proof (cases "1 \<le> effectiveMax os (length q)")
  case True
  let ?mx = "effectiveMax os (length q)"
  let ?tw = "takeWhile (\<lambda>x. type x = type item0) q"
  have tw1: "1 \<le> length ?tw" using q by simp
  have "scan q (type item0) ?mx 1 = Inr (min (nat ?mx) (length ?tw))"
    using tw1 True by (intro scan_takeWhile) (simp_all add: effectiveMax_le)
  moreover have "max 1 (nat ?mx) = nat ?mx" using True by simp
  moreover have "take (min (nat ?mx) (length ?tw)) q = take (nat ?mx) ?tw"
    by (rule take_min_takeWhile)
  moreover have "length (take (nat ?mx) ?tw) = min (nat ?mx) (length ?tw)"
    by (simp add: min.commute)
  ultimately show ?thesis using q by (simp add: nextBatch_def Let_def)
next
  case False
  let ?mx = "effectiveMax os (length q)"
  have "scan q (type item0) ?mx 1 = Inr 1" using False by (subst scan.simps) simp
  moreover have "max 1 (nat ?mx) = 1" using False by simp
  ultimately show ?thesis using q by (simp add: nextBatch_def Let_def)
qed

section \<open>Properties of settling a batch\<close>

lemma length_reject [simp]: "length (reject p e ps) = length ps"
  by (simp add: reject_def)

lemma length_resolve [simp]: "length (resolve p v ps) = length ps"
  by (simp add: resolve_def)

lemma nth_reject_other: "p' \<noteq> p \<Longrightarrow> reject p e ps ! p' = ps ! p'"
  by (simp add: reject_def)

lemma nth_resolve_other: "p' \<noteq> p \<Longrightarrow> resolve p v ps ! p' = ps ! p'"
  by (simp add: resolve_def)

lemma nth_reject_same: "p < length ps \<Longrightarrow> ps ! p = Pending \<Longrightarrow> reject p e ps ! p = RejectedWith e"
  by (simp add: reject_def)

lemma nth_resolve_same: "p < length ps \<Longrightarrow> ps ! p = Pending \<Longrightarrow> resolve p v ps ! p = Resolved v"
  by (simp add: resolve_def)

lemma length_reject_all [simp]: "length (reject_all batch e ps) = length ps"
  by (induction batch arbitrary: ps) simp_all

lemma length_distribute [simp]: "length (distribute batch rs ps) = length ps"
  by (induction batch rs ps rule: distribute.induct) simp_all

lemma reject_all_other:
  "p \<notin> promise ` set batch \<Longrightarrow> reject_all batch e ps ! p = ps ! p"
  by (induction batch arbitrary: ps) (simp_all add: nth_reject_other)

lemma distribute_other:
  "p \<notin> promise ` set batch \<Longrightarrow> distribute batch rs ps ! p = ps ! p"
  by (induction batch rs ps rule: distribute.induct)
     (simp_all add: nth_reject_other nth_resolve_other)

lemma reject_all_each:
  "distinct (map promise batch) \<Longrightarrow>
   \<forall>it \<in> set batch. promise it < length ps \<and> ps ! promise it = Pending \<Longrightarrow>
   it \<in> set batch \<Longrightarrow> reject_all batch e ps ! promise it = RejectedWith e"
proof (induction batch arbitrary: ps)
  case Nil
  then show ?case by simp
next
  case (Cons x xs)
  show ?case
  proof (cases "it \<in> set xs")
    case True
    have "\<forall>y \<in> set xs. promise y \<noteq> promise x" using Cons.prems(1) by (auto simp: image_iff)
    then have "\<forall>y \<in> set xs. promise y < length (reject (promise x) e ps)
            \<and> reject (promise x) e ps ! promise y = Pending"
      using Cons.prems(2) by (simp add: nth_reject_other)
    with Cons.IH [of "reject (promise x) e ps"] Cons.prems(1) True show ?thesis by simp
  next
    case False
    with Cons.prems(3) have eq: "it = x" by simp
    have "promise x \<notin> promise ` set xs" using Cons.prems(1) by auto
    then have "reject_all xs e (reject (promise x) e ps) ! promise x = reject (promise x) e ps ! promise x"
      by (rule reject_all_other)
    with eq Cons.prems(2) show ?thesis by (simp add: nth_reject_same)
  qed
qed

lemma distribute_each:
  "distinct (map promise batch) \<Longrightarrow>
   \<forall>it \<in> set batch. promise it < length ps \<and> ps ! promise it = Pending \<Longrightarrow>
   length rs = length batch \<Longrightarrow> i < length batch \<Longrightarrow>
   distribute batch rs ps ! promise (batch ! i) = settled_with (rs ! i)"
proof (induction batch rs ps arbitrary: i rule: distribute.induct)
  case (1 rs ps)
  then show ?case by simp
next
  case (2 it its ps)
  then show ?case by simp
next
  case (3 it its r rs ps)
  let ?ps = "if instanceofError r then reject (promise it) r ps else resolve (promise it) r ps"
  have fresh: "promise it \<notin> promise ` set its" using "3.prems"(1) by auto
  show ?case
  proof (cases i)
    case 0
    have "distribute its rs ?ps ! promise it = ?ps ! promise it"
      using fresh by (rule distribute_other)
    with 0 "3.prems"(2) show ?thesis
      by (simp add: settled_with_def nth_reject_same nth_resolve_same)
  next
    case (Suc j)
    have "\<forall>y \<in> set its. promise y \<noteq> promise it" using "3.prems"(1) by (auto simp: image_iff)
    then have "\<forall>y \<in> set its. promise y < length ?ps \<and> ?ps ! promise y = Pending"
      using "3.prems"(2) by (simp add: nth_reject_other nth_resolve_other)
    with "3.IH" [of j] "3.prems" Suc show ?thesis by simp
  qed
qed

section \<open>The claims about the batch selection\<close>

text \<open>
  Claim C2. In a pass of the flush loop over a queue that is not empty, the batch taken off
  the queue is the longest prefix whose entries all have the type of the first entry, cut
  to \<open>min(maxBatchSize, queueLength)\<close> entries when \<open>maxBatchSize\<close> is set (to a positive
  integer) and to \<open>queueLength\<close> otherwise. The queue keeps the entries behind that prefix,
  the prefix goes to the batch function of its type in one call, and every entry of the
  batch has the type of the first: no batch holds both loads and saves.
\<close>

theorem flush_takes_longest_same_kind_prefix:
  assumes q: "queue s = item0 # others"
    and m: "\<forall>m. maxBatchSize (opts b) = Some m \<longrightarrow> 1 \<le> m"
  shows "let queueLength = length (queue s);
             cap = (case maxBatchSize (opts b) of
                      Some m \<Rightarrow> nat (min m (int queueLength))
                    | None \<Rightarrow> queueLength);
             batch = take cap (takeWhile (\<lambda>x. type x = type item0) (queue s))
         in nextBatch (opts b) (queue s) = Inr (type item0, batch, drop (length batch) (queue s))
          \<and> queue (state_of (dispatch b s)) = drop (length batch) (queue s)
          \<and> (type item0 = LoadT \<or> batchSaveFn b \<noteq> None \<longrightarrow>
               calls (state_of (dispatch b s)) = calls s @ [(type item0, batch_args (type item0) batch)])
          \<and> (\<forall>x \<in> set batch. type x = type item0)"
proof -
  let ?q = "queue s"
  let ?P = "\<lambda>x. type x = type item0"
  let ?tw = "takeWhile ?P ?q"
  let ?mx = "effectiveMax (opts b) (length ?q)"
  define cap where "cap = (case maxBatchSize (opts b) of
                      Some m \<Rightarrow> nat (min m (int (length ?q)))
                    | None \<Rightarrow> length ?q)"
  define batch where "batch = take cap ?tw"
  have mx: "?mx = int cap" "1 \<le> ?mx"
    using m q by (auto simp: effectiveMax_def cap_def split: option.splits)
  have tw1: "1 \<le> length ?tw" using q by simp
  have "scan ?q (type item0) ?mx 1 = Inr (min (nat ?mx) (length ?tw))"
    using tw1 mx(2) by (intro scan_takeWhile) (simp_all add: effectiveMax_le)
  then have sc: "scan ?q (type item0) ?mx 1 = Inr (min cap (length ?tw))"
    using mx(1) by simp
  have tk: "take (min cap (length ?tw)) ?q = batch"
    unfolding batch_def by (rule take_min_takeWhile)
  have len: "length batch = min cap (length ?tw)"
    unfolding batch_def by (simp add: min.commute)
  have nb: "nextBatch (opts b) ?q = Inr (type item0, batch, drop (length batch) ?q)"
    using q sc tk len by (simp add: nextBatch_def Let_def)
  have hom: "\<forall>x \<in> set batch. type x = type item0"
    unfolding batch_def by (auto dest: in_set_takeD set_takeWhileD)
  from calls_dispatch(1,2) [OF nb] nb hom
  show ?thesis
    unfolding Let_def cap_def [symmetric] batch_def [symmetric] by blast
qed

theorem flush_takes_longest_same_kind_prefix_witness:
  "let b = example_batcher echo_loader (Some void_saver) (empty_options\<lparr>maxBatchSize := Some 2\<rparr>);
       s = exec b [OpLoad (JNum 1), OpLoad (JNum 2), OpLoad (JNum 3), OpSave (JNum 1) (JStr ''a'')]
             initial_state
   in queue s = \<lparr>promise = 0, key = JNum 1, item_value = JUndefined, type = LoadT\<rparr> #
                [\<lparr>promise = 1, key = JNum 2, item_value = JUndefined, type = LoadT\<rparr>,
                 \<lparr>promise = 2, key = JNum 3, item_value = JUndefined, type = LoadT\<rparr>,
                 \<lparr>promise = 3, key = JNum 1, item_value = JStr ''a'', type = SaveT\<rparr>]
    \<and> maxBatchSize (opts b) = Some 2
    \<and> nextBatch (opts b) (queue s) =
        Inr (LoadT, [\<lparr>promise = 0, key = JNum 1, item_value = JUndefined, type = LoadT\<rparr>,
                     \<lparr>promise = 1, key = JNum 2, item_value = JUndefined, type = LoadT\<rparr>],
                    [\<lparr>promise = 2, key = JNum 3, item_value = JUndefined, type = LoadT\<rparr>,
                     \<lparr>promise = 3, key = JNum 1, item_value = JStr ''a'', type = SaveT\<rparr>])
    \<and> calls (state_of (dispatch b s)) = [(LoadT, [JNum 1, JNum 2])]"
proof -
  let ?b = "example_batcher echo_loader (Some void_saver) (empty_options\<lparr>maxBatchSize := Some 2\<rparr>)"
  let ?s = "exec ?b [OpLoad (JNum 1), OpLoad (JNum 2), OpLoad (JNum 3), OpSave (JNum 1) (JStr ''a'')]
             initial_state"
  let ?i0 = "\<lparr>promise = 0, key = JNum 1, item_value = JUndefined, type = LoadT\<rparr>"
  let ?rest = "[\<lparr>promise = 1, key = JNum 2, item_value = JUndefined, type = LoadT\<rparr>,
                 \<lparr>promise = 2, key = JNum 3, item_value = JUndefined, type = LoadT\<rparr>,
                 \<lparr>promise = 3, key = JNum 1, item_value = JStr ''a'', type = SaveT\<rparr>]"
  have q: "queue ?s = ?i0 # ?rest"
    by (simp add: example_batcher_def empty_options_def initial_state_def load_def loadLater_def
          save_def saveLater_def
          enqueue_def shouldCache_def cacheKey_def cache_get_def object_prototype_keys_def
          show_int_def show_nat.simps Let_def)
  have c: "calls ?s = []"
    by (simp add: example_batcher_def empty_options_def initial_state_def load_def loadLater_def
          save_def saveLater_def
          enqueue_def shouldCache_def cacheKey_def cache_get_def object_prototype_keys_def
          show_int_def show_nat.simps Let_def)
  have o: "maxBatchSize (opts ?b) = Some 2" "batchSaveFn ?b \<noteq> None"
    by (simp_all add: example_batcher_def empty_options_def)
  then have m: "\<forall>m. maxBatchSize (opts ?b) = Some m \<longrightarrow> 1 \<le> m" by simp
  from flush_takes_longest_same_kind_prefix [OF q m]
  have "nextBatch (opts ?b) (queue ?s) =
        Inr (LoadT, [\<lparr>promise = 0, key = JNum 1, item_value = JUndefined, type = LoadT\<rparr>,
                     \<lparr>promise = 1, key = JNum 2, item_value = JUndefined, type = LoadT\<rparr>],
                    [\<lparr>promise = 2, key = JNum 3, item_value = JUndefined, type = LoadT\<rparr>,
                     \<lparr>promise = 3, key = JNum 1, item_value = JStr ''a'', type = SaveT\<rparr>])
    \<and> calls (state_of (dispatch ?b ?s)) = [(LoadT, [JNum 1, JNum 2])]"
    unfolding Let_def o q c by (simp add: batch_args_def load_args_def)
  with q o(1) show ?thesis unfolding Let_def by blast
qed

text \<open>
  Claim C10. In a pass of the flush loop over a queue that is not empty, whatever
  \<open>maxBatchSize\<close> is, the scan ends with a batch size and never reads beyond the end of
  the queue; the batch has at least one entry and at most as many as the queue; and a batch
  function that is called in the pass is called with a sequence that is not empty.
\<close>

theorem flush_batch_size_in_range:
  assumes "queue s \<noteq> []"
  shows "\<exists>n. scan (queue s) (type (hd (queue s))) (effectiveMax (opts b) (length (queue s))) 1 = Inr n
           \<and> nextBatch (opts b) (queue s) = Inr (type (hd (queue s)), take n (queue s), drop n (queue s))
           \<and> 1 \<le> length (take n (queue s))
           \<and> length (take n (queue s)) \<le> length (queue s)
           \<and> (\<exists>cs. calls (state_of (dispatch b s)) = calls s @ cs \<and> (\<forall>c \<in> set cs. snd c \<noteq> []))"
proof -
  let ?q = "queue s"
  from assms obtain x xs where q: "?q = x # xs" by (cases ?q) auto
  have "1 \<le> length ?q" using q by simp
  from scan_bounds [OF this effectiveMax_le, of "type x" "opts b"]
  obtain n where sc: "scan ?q (type x) (effectiveMax (opts b) (length ?q)) 1 = Inr n"
    and n: "1 \<le> n" "n \<le> length ?q"
    by blast
  have nb: "nextBatch (opts b) ?q = Inr (type (hd ?q), take n ?q, drop n ?q)"
    using q sc by (simp add: nextBatch_def Let_def)
  have ne: "take n ?q \<noteq> []" using n q by auto
  have "\<exists>cs. calls (state_of (dispatch b s)) = calls s @ cs \<and> (\<forall>c \<in> set cs. snd c \<noteq> [])"
  proof (cases "type (hd ?q) = LoadT \<or> batchSaveFn b \<noteq> None")
    case True
    from calls_dispatch(2) [OF nb True]
    have "calls (state_of (dispatch b s)) = calls s @ [(type (hd ?q), batch_args (type (hd ?q)) (take n ?q))]" .
    moreover have "batch_args (type (hd ?q)) (take n ?q) \<noteq> []"
      using ne by (simp add: batch_args_def load_args_def save_args_def)
    ultimately show ?thesis by auto
  next
    case False
    then have "type (hd ?q) = SaveT" "batchSaveFn b = None" by (auto intro: kind.exhaust)
    from calls_dispatch(3) [OF nb this] show ?thesis by simp
  qed
  with sc nb n q show ?thesis by auto
qed

theorem flush_batch_size_in_range_witness:
  "let b = example_batcher echo_loader None (empty_options\<lparr>maxBatchSize := Some (- 3)\<rparr>);
       s = exec b [OpLoad (JNum 1), OpLoad (JNum 2)] initial_state
   in queue s \<noteq> []
    \<and> nextBatch (opts b) (queue s) =
        Inr (LoadT, [\<lparr>promise = 0, key = JNum 1, item_value = JUndefined, type = LoadT\<rparr>],
                    [\<lparr>promise = 1, key = JNum 2, item_value = JUndefined, type = LoadT\<rparr>])"
proof -
  let ?b = "example_batcher echo_loader None (empty_options\<lparr>maxBatchSize := Some (- 3)\<rparr>)"
  let ?s = "exec ?b [OpLoad (JNum 1), OpLoad (JNum 2)] initial_state"
  have q: "queue ?s = [\<lparr>promise = 0, key = JNum 1, item_value = JUndefined, type = LoadT\<rparr>,
                       \<lparr>promise = 1, key = JNum 2, item_value = JUndefined, type = LoadT\<rparr>]"
    by (simp add: example_batcher_def empty_options_def initial_state_def load_def loadLater_def
          enqueue_def shouldCache_def cacheKey_def cache_get_def object_prototype_keys_def
          show_int_def show_nat.simps Let_def)
  then have h: "queue ?s \<noteq> []" by simp
  from flush_batch_size_in_range [OF h, of ?b]
  obtain n where sc: "scan (queue ?s) (type (hd (queue ?s))) (effectiveMax (opts ?b) (length (queue ?s))) 1 = Inr n"
    and nb: "nextBatch (opts ?b) (queue ?s) = Inr (type (hd (queue ?s)), take n (queue ?s), drop n (queue ?s))"
    by blast
  have "scan (queue ?s) (type (hd (queue ?s))) (effectiveMax (opts ?b) (length (queue ?s))) 1 = Inr 1"
    unfolding q by (simp add: scan.simps effectiveMax_def example_batcher_def empty_options_def)
  with sc have "n = 1" by simp
  with nb have "nextBatch (opts ?b) (queue ?s) = Inr (type (hd (queue ?s)), take 1 (queue ?s), drop 1 (queue ?s))"
    by simp
  then have "nextBatch (opts ?b) (queue ?s) =
        Inr (LoadT, [\<lparr>promise = 0, key = JNum 1, item_value = JUndefined, type = LoadT\<rparr>],
                    [\<lparr>promise = 1, key = JNum 2, item_value = JUndefined, type = LoadT\<rparr>])"
    unfolding q by simp
  with h show ?thesis unfolding Let_def by (rule conjI)
qed

section \<open>The claims about construction\<close>





section \<open>The claim about saving without a save function\<close>


lemma save_result:
  "save b k v s =
     (length (promises s),
      s\<lparr>loadCache := (loadCache s)(cacheKey (opts b) k := None),
        promises := promises s @ [Pending],
        queue := queue s @ [\<lparr>promise = length (promises s), key = k, item_value = v, type = SaveT\<rparr>],
        scheduled := (if queue s = [] \<and> \<not> flushing s then scheduled s + 1 else scheduled s)\<rparr>)"
  by (simp add: save_def saveLater_def enqueue_def Let_def)




section \<open>The state invariant\<close>

text \<open>
  \<open>wf_state\<close> holds when a coordinator is constructed and after every call of \<open>load\<close> and
  \<open>save\<close> and every pass of the flush loop, hence in every state a coordinator reaches.
\<close>

lemma wf_initial: "wf_state initial_state"
  by (simp add: wf_state_def initial_state_def)

lemma loadLater_result:
  "loadLater k s =
     (length (promises s),
      s\<lparr>promises := promises s @ [Pending],
        queue := queue s @ [\<lparr>promise = length (promises s), key = k, item_value = JUndefined, type = LoadT\<rparr>],
        scheduled := (if queue s = [] \<and> \<not> flushing s then scheduled s + 1 else scheduled s)\<rparr>)"
  by (simp add: loadLater_def enqueue_def Let_def)



lemma wf_enqueue_fresh:
  assumes "wf_state s"
  shows "wf_state (s\<lparr>promises := promises s @ [Pending],
        queue := queue s @ [\<lparr>promise = length (promises s), key = k, item_value = v, type = t\<rparr>],
        scheduled := n\<rparr>)"
  using assms
  by (auto simp: wf_state_def nth_append image_iff less_Suc_eq dest!: spec)

lemma wf_cache_update:
  "wf_state s \<Longrightarrow> p < length (promises s) \<Longrightarrow> wf_state (s\<lparr>loadCache := (loadCache s)(ck \<mapsto> p)\<rparr>)"
  by (simp add: wf_state_def)

lemma wf_cache_delete:
  "wf_state s \<Longrightarrow> wf_state (s\<lparr>loadCache := (loadCache s)(ck := None)\<rparr>)"
  by (simp add: wf_state_def)

lemma wf_load: "wf_state s \<Longrightarrow> wf_state (snd (load b k s))"
proof -
  assume wf: "wf_state s"
  let ?s' = "snd (loadLater k s)"
  have 1: "wf_state ?s'" unfolding loadLater_result snd_conv using wf by (rule wf_enqueue_fresh)
  have 2: "fst (loadLater k s) < length (promises ?s')" by (simp add: loadLater_result)
  from wf_cache_update [OF 1 2] 1 wf show ?thesis
    by (simp add: load_def Let_def case_prod_unfold split: option.splits)
qed

lemma wf_save: "wf_state s \<Longrightarrow> wf_state (snd (save b k v s))"
proof -
  assume "wf_state s"
  then have "wf_state (s\<lparr>loadCache := (loadCache s)(cacheKey (opts b) k := None)\<rparr>)"
    by (rule wf_cache_delete)
  from wf_enqueue_fresh [OF this] show ?thesis
    by (simp add: save_result)
qed

lemma nextBatch_split:
  assumes "nextBatch os q = Inr (t, batch, rest)"
  shows "q = batch @ rest" and "batch \<noteq> []" and "t = type (hd q)"
proof -
  from assms have ne: "q \<noteq> []" by (auto simp: nextBatch_def)
  from nextBatch_total [OF ne, of os] assms obtain n where
    "t = type (hd q)" "batch = take n q" "rest = drop n q" "1 \<le> n" by auto
  with ne show "q = batch @ rest" and "batch \<noteq> []" and "t = type (hd q)" by auto
qed

lemma wf_batch:
  assumes "wf_state s" and "nextBatch os (queue s) = Inr (t, batch, rest)"
  shows "distinct (map promise batch)"
    and "\<forall>it \<in> set batch. promise it < length (promises s) \<and> promises s ! promise it = Pending"
    and "\<forall>it \<in> set rest. promise it \<notin> promise ` set batch"
  using assms(1) nextBatch_split(1) [OF assms(2)]
  by (auto simp: wf_state_def)

lemma settle_batch_promises:
  "length (promises (state_of (settle_batch batch c s))) = length (promises s)"
  "p \<notin> promise ` set batch \<Longrightarrow> promises (state_of (settle_batch batch c s)) ! p = promises s ! p"
  by (simp_all add: settle_batch_def reject_all_other distribute_other split: checked.splits)

lemma batchLoad_promises:
  "length (promises (state_of (batchLoad b batch s))) = length (promises s)"
  "p \<notin> promise ` set batch \<Longrightarrow> promises (state_of (batchLoad b batch s)) ! p = promises s ! p"
  by (simp_all add: batchLoad_def Let_def settle_batch_promises split: outcome.splits)

lemma batchSave_promises:
  "length (promises (state_of (batchSave b batch s))) = length (promises s)"
  "p \<notin> promise ` set batch \<Longrightarrow> promises (state_of (batchSave b batch s)) ! p = promises s ! p"
  by (simp_all add: batchSave_def Let_def settle_batch_promises split: outcome.splits option.splits)

lemma dispatch_promises:
  assumes "nextBatch (opts b) (queue s) = Inr (t, batch, rest)"
  shows "length (promises (state_of (dispatch b s))) = length (promises s)"
    and "p \<notin> promise ` set batch \<Longrightarrow> promises (state_of (dispatch b s)) ! p = promises s ! p"
  using assms
  by (simp_all add: dispatch_def Let_def batchLoad_promises batchSave_promises)

lemma wf_dispatch:
  assumes wf: "wf_state s" and ne: "queue s \<noteq> []"
  shows "wf_state (state_of (dispatch b s))"
proof -
  from nextBatch_total [OF ne, of "opts b"] obtain t batch rest where
    nb: "nextBatch (opts b) (queue s) = Inr (t, batch, rest)" by blast
  let ?s' = "state_of (dispatch b s)"
  have q: "queue ?s' = rest" and c: "loadCache ?s' = loadCache s"
    using calls_dispatch(1,4) [OF nb] by simp_all
  have split: "queue s = batch @ rest" by (rule nextBatch_split(1) [OF nb])
  have len: "length (promises ?s') = length (promises s)" by (rule dispatch_promises(1) [OF nb])
  have "distinct (map promise rest)" using wf split by (simp add: wf_state_def)
  moreover have "\<forall>it \<in> set rest. promise it < length (promises ?s') \<and> promises ?s' ! promise it = Pending"
  proof
    fix it assume it: "it \<in> set rest"
    with wf_batch(3) [OF wf nb] have "promise it \<notin> promise ` set batch" by blast
    then have "promises ?s' ! promise it = promises s ! promise it"
      by (rule dispatch_promises(2) [OF nb])
    with wf it split len show "promise it < length (promises ?s') \<and> promises ?s' ! promise it = Pending"
      by (simp add: wf_state_def)
  qed
  moreover have "\<forall>ck p. loadCache ?s' ck = Some p \<longrightarrow> p < length (promises ?s')"
    using wf c len by (simp add: wf_state_def)
  ultimately show ?thesis using q by (simp add: wf_state_def)
qed

lemma wf_flushIteration: "wf_state s \<Longrightarrow> wf_state (state_of (flushIteration b s))"
  by (cases "queue s = []") (simp_all add: flushIteration_def wf_dispatch, simp add: wf_state_def)

lemma wf_apply_op: "wf_state s \<Longrightarrow> wf_state (apply_op b x s)"
  by (cases x) (simp_all add: wf_load wf_save wf_flushIteration)

lemma wf_exec: "wf_state s \<Longrightarrow> wf_state (exec b xs s)"
  by (induction xs arbitrary: s) (simp_all add: wf_apply_op)

section \<open>The claims about the results of a batch\<close>

lemma dispatch_returns:
  assumes "nextBatch (opts b) (queue s) = Inr (t, batch, rest)"
    and "batch_fn b t = Some f"
    and "f (batch_args t batch) = Returns r"
  shows "dispatch b s =
           settle_batch batch
             (if t = LoadT then checkLoadResult r (length batch) else checkSaveResult r (length batch))
             (s\<lparr>flushing := True, queue := rest, calls := calls s @ [(t, batch_args t batch)]\<rparr>)"
  using assms
  by (cases t) (simp_all add: dispatch_def batch_fn_def batch_args_def batchLoad_def batchSave_def Let_def)

lemma malformed_load_invalid:
  assumes "malformed r n"
  shows "\<exists>m. checkLoadResult r n = Invalid (JError m)
           \<and> (\<forall>xs. r = Promise (Fulfilled (JArray xs)) \<longrightarrow>
                m = ''batchLoadFn must return Promise<Array<value>> of length '' @ show_nat n @
                    '' but got length: '' @ show_nat (length xs))"
  using assms
  by (auto simp: malformed_def checkLoadResult_def split: returned.splits settlement.splits jsval.splits)

lemma malformed_save_invalid:
  assumes "malformed r n"
  shows "\<exists>m. checkSaveResult r n = Invalid (JError m)
           \<and> (\<forall>xs. r = Promise (Fulfilled (JArray xs)) \<longrightarrow>
                m = ''batchSaveFn must return Promise<Array<any>> of length '' @ show_nat n @
                    '' but got length: '' @ show_nat (length xs))"
  using assms
  by (auto simp: malformed_def checkSaveResult_def split: returned.splits settlement.splits jsval.splits)

text \<open>
  Claim C5. A batch is taken off the queue and its batch function returns a value that breaks
  the contract: no promise, or a promise fulfilled with a value that is no array, or with an
  array whose length is not that of the batch. Then the pass completes, every entry of the
  batch has its promise rejected with one and the same \<open>Error\<close>, whose message for an array of
  the wrong length names the expected and the actual length; the batch function has been called
  once, and the entries are gone from the queue, so no later pass calls it for them again.
\<close>

theorem malformed_result_rejects_whole_batch:
  assumes wf: "wf_state s"
    and nb: "nextBatch (opts b) (queue s) = Inr (t, batch, rest)"
    and fn: "batch_fn b t = Some f"
    and out: "f (batch_args t batch) = Returns r"
    and bad: "malformed r (length batch)"
  shows "\<exists>m s'. dispatch b s = Completes s'
           \<and> (\<forall>it \<in> set batch. promises s' ! promise it = RejectedWith (JError m))
           \<and> calls s' = calls s @ [(t, batch_args t batch)]
           \<and> queue s' = rest
           \<and> (\<forall>xs. r = Promise (Fulfilled (JArray xs)) \<longrightarrow>
                m = (if t = LoadT then ''batchLoadFn must return Promise<Array<value>> of length ''
                     else ''batchSaveFn must return Promise<Array<any>> of length '') @
                    show_nat (length batch) @ '' but got length: '' @ show_nat (length xs))"
proof -
  let ?s1 = "s\<lparr>flushing := True, queue := rest, calls := calls s @ [(t, batch_args t batch)]\<rparr>"
  let ?c = "if t = LoadT then checkLoadResult r (length batch) else checkSaveResult r (length batch)"
  obtain m where c: "?c = Invalid (JError m)"
    and msg: "\<forall>xs. r = Promise (Fulfilled (JArray xs)) \<longrightarrow>
                m = (if t = LoadT then ''batchLoadFn must return Promise<Array<value>> of length ''
                     else ''batchSaveFn must return Promise<Array<any>> of length '') @
                    show_nat (length batch) @ '' but got length: '' @ show_nat (length xs)"
    using malformed_load_invalid [OF bad] malformed_save_invalid [OF bad] by (cases "t = LoadT") auto
  let ?s' = "?s1\<lparr>promises := reject_all batch (JError m) (promises ?s1)\<rparr>"
  have d: "dispatch b s = Completes ?s'"
    using dispatch_returns [OF nb fn out] c by (simp add: settle_batch_def)
  have "\<forall>it \<in> set batch. promises ?s' ! promise it = RejectedWith (JError m)"
    using reject_all_each [OF wf_batch(1,2) [OF wf nb]] by simp
  with d msg show ?thesis by auto
qed

theorem malformed_result_rejects_whole_batch_witness:
  "let b = example_batcher short_loader None empty_options;
       s = exec b [OpLoad (JNum 1), OpLoad (JNum 2)] initial_state;
       batch = [\<lparr>promise = 0, key = JNum 1, item_value = JUndefined, type = LoadT\<rparr>,
                \<lparr>promise = 1, key = JNum 2, item_value = JUndefined, type = LoadT\<rparr>]
   in wf_state s
    \<and> nextBatch (opts b) (queue s) = Inr (LoadT, batch, [])
    \<and> batch_fn b LoadT = Some short_loader
    \<and> short_loader (batch_args LoadT batch) = Returns (Promise (Fulfilled (JArray [JBool True])))
    \<and> malformed (Promise (Fulfilled (JArray [JBool True]))) (length batch)
    \<and> promises (state_of (dispatch b s)) ! 0 =
        RejectedWith (JError ''batchLoadFn must return Promise<Array<value>> of length 2 but got length: 1'')
    \<and> promises (state_of (dispatch b s)) ! 1 =
        RejectedWith (JError ''batchLoadFn must return Promise<Array<value>> of length 2 but got length: 1'')
    \<and> calls (state_of (dispatch b s)) = [(LoadT, [JNum 1, JNum 2])]"
proof -
  let ?b = "example_batcher short_loader None empty_options"
  let ?s = "exec ?b [OpLoad (JNum 1), OpLoad (JNum 2)] initial_state"
  let ?batch = "[\<lparr>promise = 0, key = JNum 1, item_value = JUndefined, type = LoadT\<rparr>,
                \<lparr>promise = 1, key = JNum 2, item_value = JUndefined, type = LoadT\<rparr>]"
  let ?r = "Promise (Fulfilled (JArray [JBool True]))"
  have wf: "wf_state ?s" by (rule wf_exec [OF wf_initial])
  have q: "queue ?s = ?batch" and c: "calls ?s = []"
    by (simp_all add: example_batcher_def empty_options_def initial_state_def load_def loadLater_result
          shouldCache_def cacheKey_def cache_get_def object_prototype_keys_def
          show_int_def show_nat.simps Let_def)
  have nb: "nextBatch (opts ?b) (queue ?s) = Inr (LoadT, ?batch, [])"
    unfolding q by (simp add: nextBatch_def scan.simps effectiveMax_def example_batcher_def empty_options_def)
  have fn: "batch_fn ?b LoadT = Some short_loader"
    by (simp add: batch_fn_def example_batcher_def)
  have out: "short_loader (batch_args LoadT ?batch) = Returns ?r"
    by (simp add: short_loader_def)
  have bad: "malformed ?r (length ?batch)"
    by (simp add: malformed_def)
  from malformed_result_rejects_whole_batch [OF wf nb fn out bad]
  obtain m s' where d: "dispatch ?b ?s = Completes s'"
    and rej: "\<forall>it \<in> set ?batch. promises s' ! promise it = RejectedWith (JError m)"
    and cs: "calls s' = calls ?s @ [(LoadT, batch_args LoadT ?batch)]"
    and msg: "m = (if LoadT = LoadT then ''batchLoadFn must return Promise<Array<value>> of length ''
                     else ''batchSaveFn must return Promise<Array<any>> of length '') @
                    show_nat (length ?batch) @ '' but got length: '' @ show_nat (length [JBool True])"
    by blast
  have m: "m = ''batchLoadFn must return Promise<Array<value>> of length 2 but got length: 1''"
    unfolding msg by (simp add: show_nat.simps)
  have "promises (state_of (dispatch ?b ?s)) ! 0 = RejectedWith (JError m)"
       "promises (state_of (dispatch ?b ?s)) ! 1 = RejectedWith (JError m)"
       "calls (state_of (dispatch ?b ?s)) = [(LoadT, [JNum 1, JNum 2])]"
    using rej cs unfolding d c by (simp_all add: batch_args_def load_args_def)
  with wf nb fn out bad show ?thesis unfolding Let_def m by blast
qed

text \<open>
  Claim C6. A batch is taken off the queue and its batch function returns a promise fulfilled
  with an array as long as the batch. Then the pass completes and the entry at each position has
  its promise settled with the value at that position: rejected with it when the value is an
  \<open>Error\<close>, resolved with it otherwise. No other promise of the store changes.
\<close>

theorem result_positions_settle_items:
  assumes wf: "wf_state s"
    and nb: "nextBatch (opts b) (queue s) = Inr (t, batch, rest)"
    and fn: "batch_fn b t = Some f"
    and out: "f (batch_args t batch) = Returns (Promise (Fulfilled (JArray rs)))"
    and len: "length rs = length batch"
  shows "\<exists>s'. dispatch b s = Completes s'
           \<and> (\<forall>i < length batch.
                 promises s' ! promise (batch ! i) =
                   (if instanceofError (rs ! i) then RejectedWith (rs ! i) else Resolved (rs ! i)))
           \<and> (\<forall>p. p \<notin> promise ` set batch \<longrightarrow> promises s' ! p = promises s ! p)
           \<and> calls s' = calls s @ [(t, batch_args t batch)]"
proof -
  let ?s1 = "s\<lparr>flushing := True, queue := rest, calls := calls s @ [(t, batch_args t batch)]\<rparr>"
  let ?s' = "?s1\<lparr>promises := distribute batch rs (promises ?s1)\<rparr>"
  have c: "(if t = LoadT then checkLoadResult (Promise (Fulfilled (JArray rs))) (length batch)
            else checkSaveResult (Promise (Fulfilled (JArray rs))) (length batch)) = Valid rs"
    using len by (simp add: checkLoadResult_def checkSaveResult_def)
  have d: "dispatch b s = Completes ?s'"
    using dispatch_returns [OF nb fn out] c by (simp add: settle_batch_def)
  have "\<forall>i < length batch. promises ?s' ! promise (batch ! i) = settled_with (rs ! i)"
    using distribute_each [OF wf_batch(1,2) [OF wf nb] len] by simp
  moreover have "\<forall>p. p \<notin> promise ` set batch \<longrightarrow> promises ?s' ! p = promises s ! p"
    by (simp add: distribute_other)
  ultimately show ?thesis using d by (simp add: settled_with_def)
qed

theorem result_positions_settle_items_witness:
  "let b = example_batcher partial_loader None empty_options;
       s = exec b [OpLoad (JNum 1), OpLoad (JNum 2)] initial_state;
       batch = [\<lparr>promise = 0, key = JNum 1, item_value = JUndefined, type = LoadT\<rparr>,
                \<lparr>promise = 1, key = JNum 2, item_value = JUndefined, type = LoadT\<rparr>]
   in wf_state s
    \<and> nextBatch (opts b) (queue s) = Inr (LoadT, batch, [])
    \<and> batch_fn b LoadT = Some partial_loader
    \<and> partial_loader (batch_args LoadT batch) =
        Returns (Promise (Fulfilled (JArray [JError ''TEST'', JNum 2])))
    \<and> length [JError ''TEST'', JNum 2] = length batch
    \<and> promises (state_of (dispatch b s)) ! 0 = RejectedWith (JError ''TEST'')
    \<and> promises (state_of (dispatch b s)) ! 1 = Resolved (JNum 2)"
proof -
  let ?b = "example_batcher partial_loader None empty_options"
  let ?s = "exec ?b [OpLoad (JNum 1), OpLoad (JNum 2)] initial_state"
  let ?batch = "[\<lparr>promise = 0, key = JNum 1, item_value = JUndefined, type = LoadT\<rparr>,
                \<lparr>promise = 1, key = JNum 2, item_value = JUndefined, type = LoadT\<rparr>]"
  let ?rs = "[JError ''TEST'', JNum 2]"
  have wf: "wf_state ?s" by (rule wf_exec [OF wf_initial])
  have q: "queue ?s = ?batch"
    by (simp_all add: example_batcher_def empty_options_def initial_state_def load_def loadLater_result
          shouldCache_def cacheKey_def cache_get_def object_prototype_keys_def
          show_int_def show_nat.simps Let_def)
  have nb: "nextBatch (opts ?b) (queue ?s) = Inr (LoadT, ?batch, [])"
    unfolding q by (simp add: nextBatch_def scan.simps effectiveMax_def example_batcher_def empty_options_def)
  have fn: "batch_fn ?b LoadT = Some partial_loader"
    by (simp add: batch_fn_def example_batcher_def)
  have out: "partial_loader (batch_args LoadT ?batch) = Returns (Promise (Fulfilled (JArray ?rs)))"
    by (simp add: partial_loader_def)
  have len: "length ?rs = length ?batch" by simp
  from result_positions_settle_items [OF wf nb fn out len]
  obtain s' where d: "dispatch ?b ?s = Completes s'"
    and pos: "\<forall>i < length ?batch.
                 promises s' ! promise (?batch ! i) =
                   (if instanceofError (?rs ! i) then RejectedWith (?rs ! i) else Resolved (?rs ! i))"
    by blast
  from pos [rule_format, of 0] pos [rule_format, of 1]
  have "promises (state_of (dispatch ?b ?s)) ! 0 = RejectedWith (JError ''TEST'')"
       "promises (state_of (dispatch ?b ?s)) ! 1 = Resolved (JNum 2)"
    unfolding d by simp_all
  with wf nb fn out len show ?thesis unfolding Let_def by blast
qed

section \<open>The claim about the number of batches\<close>

lemma chunks_Nil [simp]: "chunks m [] = []"
  by (simp add: chunks.simps)













section \<open>The claims about the load cache\<close>












text \<open>
  A \<open>load\<close> that follows a \<open>save\<close> of the same key, with caching enabled. For a key whose
  cache key is not the name of a member of \<open>Object.prototype\<close>, the \<open>load\<close> creates a promise
  that the cache did not hold before the \<open>save\<close>, and appends a load entry for the key behind
  the save entry.
\<close>

lemma load_after_save_is_fresh:
  assumes wf: "wf_state s" and sc: "shouldCache (opts b)"
    and own: "cacheKey (opts b) k \<notin> set object_prototype_keys"
  shows "fst (load b k (snd (save b k v s))) = Future (Suc (length (promises s)))
       \<and> queue (snd (load b k (snd (save b k v s)))) =
           queue s @ [\<lparr>promise = length (promises s), key = k, item_value = v, type = SaveT\<rparr>,
                      \<lparr>promise = Suc (length (promises s)), key = k, item_value = JUndefined, type = LoadT\<rparr>]
       \<and> (\<forall>ck p. loadCache s ck = Some p \<longrightarrow> p < Suc (length (promises s)))"
proof -
  let ?s1 = "snd (save b k v s)"
  have miss: "cache_get (loadCache ?s1) (cacheKey (opts b) k) = None"
    using own by (simp add: save_result cache_get_def)
  have "\<forall>ck p. loadCache s ck = Some p \<longrightarrow> p < Suc (length (promises s))"
    using wf by (auto simp: wf_state_def less_Suc_eq)
  with sc miss show ?thesis
    by (simp add: load_def loadLater_result save_result)
qed

text \<open>
  The scenario of the test \<^emph>\<open>clears load cache when save changes\<close>: \<open>load(1)\<close>,
  \<open>save(1, 1)\<close>, \<open>load(1)\<close>, then the flush loop. The loader is called twice and the saver
  once in between.
\<close>

lemma test_clears_load_cache_when_save_changes:
  "calls (state_of (flushQueue (example_batcher echo_loader (Some void_saver) empty_options)
     (exec (example_batcher echo_loader (Some void_saver) empty_options)
        [OpLoad (JNum 1), OpSave (JNum 1) (JNum 1), OpLoad (JNum 1)] initial_state))) =
   [(LoadT, [JNum 1]), (SaveT, [JArray [JNum 1, JNum 1]]), (LoadT, [JNum 1])]"
  by (simp add: example_batcher_def empty_options_def initial_state_def load_def loadLater_result
        save_result shouldCache_def cacheKey_def cache_get_def object_prototype_keys_def
        show_int_def show_nat.simps Let_def flushQueue.simps dispatch_def nextBatch_def
        scan.simps effectiveMax_def batchLoad_def batchSave_def load_args_def save_args_def
        echo_loader_def void_saver_def settle_batch_def checkLoadResult_def checkSaveResult_def
        resolve_def reject_def)

text \<open>
  Claim C3. After \<open>save(k, v)\<close> a \<open>load(k)\<close> with caching enabled should append a new load
  entry and return a promise that the cache did not hold before, so that the key is fetched
  again. At the key \<open>'constructor'\<close> the code does not do so: the read
  \<open>this._loadCache['constructor']\<close> finds the member that the cache object inherits, before
  and after the \<open>save\<close>, so \<open>load\<close> returns that member, which is no promise, and appends
  nothing. In the scenario of the test above the queue then holds the save entry alone, and the
  flush loop never calls the loader.
\<close>

theorem load_after_save_of_inherited_name:
  "load load_save_batcher (JStr ''constructor'')
     (snd (save load_save_batcher (JStr ''constructor'') (JNum 1) initial_state)) =
     (Inherited ''constructor'',
      snd (save load_save_batcher (JStr ''constructor'') (JNum 1) initial_state))
   \<and> queue (exec load_save_batcher
        [OpLoad (JStr ''constructor''), OpSave (JStr ''constructor'') (JNum 1),
         OpLoad (JStr ''constructor'')] initial_state) =
       [\<lparr>promise = 0, key = JStr ''constructor'', item_value = JNum 1, type = SaveT\<rparr>]
   \<and> calls (state_of (flushQueue load_save_batcher
       (exec load_save_batcher
          [OpLoad (JStr ''constructor''), OpSave (JStr ''constructor'') (JNum 1),
           OpLoad (JStr ''constructor'')] initial_state))) =
       [(SaveT, [JArray [JStr ''constructor'', JNum 1]])]"
  by (simp add: load_save_batcher_def example_batcher_def empty_options_def initial_state_def
        load_def loadLater_result save_result shouldCache_def cacheKey_def cache_get_def object_prototype_keys_def
        Let_def flushQueue.simps dispatch_def nextBatch_def
        scan.simps effectiveMax_def batchLoad_def batchSave_def load_args_def save_args_def
        echo_loader_def void_saver_def settle_batch_def checkLoadResult_def checkSaveResult_def
        resolve_def reject_def)

section \<open>Scenarios of the test suite\<close>

text \<open>
  The model run on scenarios of the repository's tests: it makes the calls and settles the
  promises that the tests expect.
\<close>

lemmas run_simps =
  example_batcher_def empty_options_def initial_state_def load_def loadLater_result
  save_result shouldCache_def cacheKey_def cache_get_def object_prototype_keys_def
  show_int_def show_nat.simps Let_def flushQueue.simps dispatch_def nextBatch_def
  scan.simps effectiveMax_def batchLoad_def batchSave_def load_args_def save_args_def
  echo_loader_def void_saver_def settle_batch_def checkLoadResult_def checkSaveResult_def
  resolve_def reject_def

lemma test_uses_batchLoader_to_loadMany:
  "fst (loadMany (example_batcher echo_loader None empty_options) [JNum 1, JNum 2] initial_state) =
     [Future 0, Future 1]
   \<and> calls (state_of (flushQueue (example_batcher echo_loader None empty_options)
        (snd (loadMany (example_batcher echo_loader None empty_options) [JNum 1, JNum 2]
           initial_state)))) = [(LoadT, [JNum 1, JNum 2])]
   \<and> promises (state_of (flushQueue (example_batcher echo_loader None empty_options)
        (snd (loadMany (example_batcher echo_loader None empty_options) [JNum 1, JNum 2]
           initial_state)))) = [Resolved (JNum 1), Resolved (JNum 2)]"
  by (simp add: run_simps)

lemma test_supports_disabling_cache:
  "fst (loadMany (example_batcher echo_loader None (empty_options\<lparr>cache := JBool False\<rparr>))
         [JNum 1, JNum 1] initial_state) = [Future 0, Future 1]
   \<and> calls (state_of (flushQueue (example_batcher echo_loader None (empty_options\<lparr>cache := JBool False\<rparr>))
        (snd (loadMany (example_batcher echo_loader None (empty_options\<lparr>cache := JBool False\<rparr>))
           [JNum 1, JNum 1] initial_state)))) = [(LoadT, [JNum 1, JNum 1])]"
  by (simp add: run_simps)

lemma test_uses_batchSaver_to_save:
  "calls (state_of (flushQueue (example_batcher echo_loader (Some void_saver) empty_options)
      (snd (save (example_batcher echo_loader (Some void_saver) empty_options)
         (JNum 1) (JStr ''test'') initial_state)))) = [(SaveT, [JArray [JNum 1, JStr ''test'']])]
   \<and> promises (state_of (flushQueue (example_batcher echo_loader (Some void_saver) empty_options)
      (snd (save (example_batcher echo_loader (Some void_saver) empty_options)
         (JNum 1) (JStr ''test'') initial_state)))) = [Resolved JUndefined]"
  by (simp add: run_simps)

lemma test_rejects_if_batchLoadFn_returns_non_Promise:
  "promises (state_of (flushQueue (example_batcher (\<lambda>ks. Returns (Plain (JBool False))) None empty_options)
      (snd (load (example_batcher (\<lambda>ks. Returns (Plain (JBool False))) None empty_options)
         (JNum 1) initial_state)))) =
     [RejectedWith (JError ''batchLoadFn must return Promise<Array<value>> but got: false'')]"
  by (simp add: run_simps)

lemma test_rejects_if_batchSaveFn_returns_non_Array:
  "promises (state_of (flushQueue
      (example_batcher echo_loader (Some (\<lambda>ws. Returns (Promise (Fulfilled (JBool True))))) empty_options)
      (snd (save
         (example_batcher echo_loader (Some (\<lambda>ws. Returns (Promise (Fulfilled (JBool True))))) empty_options)
         (JNum 1) (JStr ''test'') initial_state)))) =
     [RejectedWith (JError ''batchSaveFn must return Promise<Array<any>> but got: Promise<true>'')]"
  by (simp add: run_simps)

end
